theory Spec2Isabelle
  imports Main "HOL-Library.Sublist"
begin

section \<open>Python strings\<close>

text \<open>
  Python text is modelled as \<open>string\<close>: one \<open>char\<close> stands for one code point, so
  \<open>length\<close> is Python's \<open>len\<close> on texts whose code points are below 256.
  \<open>isspace\<close> is \<open>str.isspace\<close> on these code points: TAB, LF, VT, FF, CR, the four
  separators 0x1C..0x1F, the space, NEL (0x85) and the no-break space (0xA0).
\<close>

definition isspace :: "char \<Rightarrow> bool" where
  "isspace c =
     (let n = (of_char c :: nat)
      in (9 \<le> n \<and> n \<le> 13) \<or> (28 \<le> n \<and> n \<le> 32) \<or> n = 133 \<or> n = 160)"

text \<open>\<open>s.strip()\<close>: leading and trailing whitespace removed.\<close>

definition strip :: "string \<Rightarrow> string" where
  "strip s = rev (dropWhile isspace (rev (dropWhile isspace s)))"




text \<open>\<open>sep.join(xs)\<close>.\<close>

fun str_join :: "string \<Rightarrow> string list \<Rightarrow> string" where
  "str_join sep [] = []"
| "str_join sep [x] = x"
| "str_join sep (x # y # ys) = x @ sep @ str_join sep (y # ys)"


section \<open>The Completion Gateway, the console and the world\<close>

text \<open>
  The script passes the global names \<open>ORCHESTRATOR_MODEL\<close>, \<open>SUBAGENT_MODEL\<close> and
  \<open>REFINER_MODEL\<close> to \<open>client.chat\<close>. Its text binds none of them (they occur only as
  keys of \<open>MODEL_IDENTIFIERS\<close>), so they are kept here as three symbolic identifiers:
  the configuration of the run.
\<close>

datatype model_id = ORCHESTRATOR_MODEL | SUBAGENT_MODEL | REFINER_MODEL

text \<open>
  \<open>client.chat\<close> is the external completion service. Its reply may depend on how many
  calls were made before, on the model and on the content sent: a gateway is any function
  of these three. A scripted (mocked) gateway answers by call number alone.
\<close>

type_synonym gateway = "nat \<Rightarrow> model_id \<Rightarrow> string \<Rightarrow> string"

text \<open>What \<open>console.print\<close> receives: a plain text, or a \<open>Panel\<close> with its body and title.\<close>

datatype event = Print string | Panel string string

datatype node = File string | Dir

text \<open>
  The file system maps a location, the list of the names from the root directory down,
  to what is there. The empty list is the root. The world also holds the working
  directory of the run, to which relative paths are resolved.
\<close>

type_synonym filesystem = "string list \<Rightarrow> node option"

record world =
  calls :: "(model_id \<times> string) list"
  console :: "event list"
  files :: filesystem
  cwd :: "string list"

definition client_chat :: "gateway \<Rightarrow> model_id \<Rightarrow> string \<Rightarrow> world \<Rightarrow> string \<times> world" where
  "client_chat g model content w =
     (g (length (calls w)) model content, w\<lparr>calls := calls w @ [(model, content)]\<rparr>)"

definition console_print :: "event \<Rightarrow> world \<Rightarrow> world" where
  "console_print e w = w\<lparr>console := console w @ [e]\<rparr>"

datatype error = ValueError | AttributeError

section \<open>The Sub-task Executor: \<open>haiku_sub_agent\<close>\<close>

record task =
  task :: string
  result :: string

definition continuation_prompt :: string where
  "continuation_prompt = ''Continuing from the previous answer, please complete the response.''"

definition truncation_warning :: string where
  "truncation_warning =
     ''[bold yellow]Warning:[/bold yellow] Output may be truncated. Attempting to continue the response.''"

definition previous_tasks_summary :: "task list \<Rightarrow> string" where
  "previous_tasks_summary previous_haiku_tasks =
     ''Previous Haiku tasks:\<newline>'' @
     str_join ''\<newline>''
       (map (\<lambda>t. ''Task: '' @ task t @ ''\<newline>Result: '' @ result t) previous_haiku_tasks)"

definition full_prompt :: "string \<Rightarrow> task list \<Rightarrow> bool \<Rightarrow> string" where
  "full_prompt prompt previous_haiku_tasks continuation =
     previous_tasks_summary previous_haiku_tasks @ ''\<newline>\<newline>'' @
     (if continuation then continuation_prompt else prompt)"

text \<open>
  The recursion of \<open>haiku_sub_agent\<close> has no bound: it ends when a reply is shorter than
  4000 characters. The result \<open>None\<close> is a call that never returns; \<open>Inl\<close> is a raised
  exception.
\<close>

partial_function (option) haiku_sub_agent ::
  "gateway \<Rightarrow> string \<Rightarrow> task list \<Rightarrow> bool \<Rightarrow> world \<Rightarrow> ((error + string) \<times> world) option"
where
  "haiku_sub_agent g prompt previous_haiku_tasks continuation w =
     (if strip (full_prompt prompt previous_haiku_tasks continuation) = []
      then Some (Inl ValueError, w)
      else
        (case client_chat g SUBAGENT_MODEL (full_prompt prompt previous_haiku_tasks continuation) w of
           (response_text, w1) \<Rightarrow>
             if length response_text \<ge> 4000
             then
               Option.bind
                 (haiku_sub_agent g continuation_prompt previous_haiku_tasks True
                    (console_print (Print truncation_warning) w1))
                 (\<lambda>(r, w2).
                    case r of
                      Inl e \<Rightarrow> Some (Inl e, w2)
                    | Inr continuation_response_text \<Rightarrow>
                        Some (Inr (response_text @ continuation_response_text),
                              console_print
                                (Panel (response_text @ continuation_response_text)
                                   ''[bold blue]Ollama Sub-agent Result[/bold blue]'') w2))
             else
               Some (Inr response_text,
                     console_print
                       (Panel response_text ''[bold blue]Ollama Sub-agent Result[/bold blue]'') w1)))"

section \<open>The Refiner: \<open>opus_refine\<close>\<close>

text \<open>
  The fixed instructions of the refiner's request. The source text ends with one more
  character, a zero-width space (U+200B), which \<open>char\<close> cannot hold; no property below
  depends on it.
\<close>

definition refine_instructions :: string where
  "refine_instructions = ''\<newline>\<newline>Please review and refine the sub-task results into a cohesive final output. Add any missing information or details as needed.\<newline>\<newline>When working on code projects, ONLY AND ONLY IF THE PROJECT IS CLEARLY A CODING ONE, please provide the following:\<newline>\<newline>1. Project Name: Create a concise and appropriate project name that fits the project based on what it's creating. The project name should be no more than 20 characters long.\<newline>\<newline>2. Folder Structure: Provide the folder structure as a valid JSON object, where each key represents a folder or file, and nested keys represent subfolders. Use null values for files. Ensure the JSON is properly formatted without any syntax errors. Please make sure all keys are enclosed in double quotes, and ensure objects are correctly encapsulated with braces, separating items with commas as necessary. Wrap the JSON object in <folder_structure> tags.\<newline>\<newline>3. Code Files: For each code file, include ONLY the file name, NEVER EVER USE THE FILE PATH OR ANY OTHER FORMATTING. YOU ONLY USE THE FOLLOWING format 'Filename: <filename>' followed by the code block enclosed in triple backticks, with the language identifier after the opening backticks, like this:\<newline>\<newline>python\<newline><code>\<newline>\<newline>\<newline>Focus solely on the objective and avoid engaging in casual conversation. Ensure the final output is clear, concise, and addresses all aspects of the objective.''"

definition refine_content :: "string \<Rightarrow> string list \<Rightarrow> string" where
  "refine_content objective sub_task_results =
     ''Objective: '' @ objective @ ''\<newline>\<newline>Sub-task results:\<newline>'' @
     str_join ''\<newline>'' sub_task_results @ refine_instructions"

text \<open>
  \<open>opus_refine\<close> takes \<open>filename\<close>, \<open>projectname\<close> and \<open>continuation\<close> and reads none of
  them: the request is built from \<open>objective\<close> and \<open>sub_task_results\<close> alone.
\<close>

partial_function (option) opus_refine ::
  "gateway \<Rightarrow> string \<Rightarrow> string list \<Rightarrow> string \<Rightarrow> string \<Rightarrow> bool \<Rightarrow> world \<Rightarrow> (string \<times> world) option"
where
  "opus_refine g objective sub_task_results filename projectname continuation w =
     (case client_chat g REFINER_MODEL (refine_content objective sub_task_results)
             (console_print
                (Print ''\<newline>Calling Ollama to provide the refined final output for your objective:'') w) of
        (response_text, w1) \<Rightarrow>
          if length response_text \<ge> 4000
          then
            Option.bind
              (opus_refine g objective sub_task_results filename projectname True
                 (console_print (Print truncation_warning) w1))
              (\<lambda>(continuation_response_text, w2).
                 Some (response_text @ continuation_response_text,
                       console_print
                         (Panel (response_text @ continuation_response_text)
                            ''[bold green]Final Output[/bold green]'') w2))
          else
            Some (response_text,
                  console_print (Panel response_text ''[bold green]Final Output[/bold green]'') w1))"

section \<open>The orchestrator and the orchestration loop\<close>

















section \<open>The ProjectTree and the file system operations\<close>

text \<open>
  What \<open>json.loads\<close> returns. A JSON object becomes a \<open>dict\<close>, which \<open>items()\<close> walks
  in the order of the text: the list of its entries. A number is kept as its literal.
\<close>

datatype json =
    JNull
  | JBool bool
  | JNumber string
  | JString string
  | JArray "json list"
  | JObject "(string \<times> json) list"

text \<open>\<open>isinstance(value, dict)\<close>.\<close>

fun is_dict :: "json \<Rightarrow> bool" where
  "is_dict (JObject items) = True"
| "is_dict v = False"

datatype oserror = FileExistsError | FileNotFoundError | NotADirectoryError | IsADirectoryError

text \<open>The text of an error as the panels show it.\<close>

fun str_oserror :: "oserror \<Rightarrow> string" where
  "str_oserror FileExistsError = ''File exists''"
| "str_oserror FileNotFoundError = ''No such file or directory''"
| "str_oserror NotADirectoryError = ''Not a directory''"
| "str_oserror IsADirectoryError = ''Is a directory''"

text \<open>\<open>os.path.join(a, b)\<close> on POSIX.\<close>

definition os_path_join :: "string \<Rightarrow> string \<Rightarrow> string" where
  "os_path_join a b =
     (if prefix ''/'' b then b
      else if a = [] \<or> last a = CHR ''/'' then a @ b
      else a @ ''/'' @ b)"

text \<open>
  How the system reads a path: the text is cut at every \<open>/\<close>; empty names and \<open>.\<close>
  are skipped; \<open>..\<close> steps to the parent (taken on the names alone); a path that starts
  with \<open>/\<close> is read from the root, any other from the working directory. Permissions,
  links and the limits of the system are not modelled.
\<close>

fun split_on :: "char \<Rightarrow> string \<Rightarrow> string list" where
  "split_on c [] = [[]]"
| "split_on c (x # xs) =
     (if x = c then [] # split_on c xs
      else (case split_on c xs of y # ys \<Rightarrow> (x # y) # ys | [] \<Rightarrow> [[x]]))"

definition components :: "string \<Rightarrow> string list" where
  "components p = filter (\<lambda>n. n \<noteq> [] \<and> n \<noteq> ''.'') (split_on CHR ''/'' p)"

fun walk_up :: "string list \<Rightarrow> string list \<Rightarrow> string list" where
  "walk_up loc [] = loc"
| "walk_up loc (n # ns) = (if n = ''..'' then walk_up (butlast loc) ns else walk_up (loc @ [n]) ns)"

definition resolve :: "string list \<Rightarrow> string \<Rightarrow> string list" where
  "resolve wd p = walk_up (if prefix ''/'' p then [] else wd) (components p)"

text \<open>A path whose text names a directory: it ends in \<open>/\<close>, \<open>.\<close> or \<open>..\<close>.\<close>

definition names_directory :: "string \<Rightarrow> bool" where
  "names_directory p = (last (split_on CHR ''/'' p) \<in> {[], ''.'', ''..''})"

text \<open>Every directory on the way from the root to the location, the location included,
  is there.\<close>

definition dir_chain :: "filesystem \<Rightarrow> string list \<Rightarrow> bool" where
  "dir_chain fs loc = (\<forall>q \<in> set (prefixes loc). q = [] \<or> fs q = Some Dir)"

text \<open>Some name on the way to the location, or the location itself, is a file.\<close>

definition file_on_way :: "filesystem \<Rightarrow> string list \<Rightarrow> bool" where
  "file_on_way fs loc = (\<exists>q \<in> set (prefixes loc). q \<noteq> [] \<and> (\<exists>c. fs q = Some (File c)))"

text \<open>The file system with a directory at the location and at every name on the way.\<close>

definition make_dirs :: "filesystem \<Rightarrow> string list \<Rightarrow> filesystem" where
  "make_dirs fs loc = (\<lambda>q. if q \<noteq> [] \<and> prefix q loc then Some Dir else fs q)"

text \<open>
  \<open>os.makedirs(path, exist_ok=True)\<close>: the missing directories on the way are created;
  a directory already there is no error; a file on the way, or an empty path, is one.
\<close>

definition os_makedirs :: "string \<Rightarrow> world \<Rightarrow> oserror + world" where
  "os_makedirs path w =
     (if path = [] then Inl FileNotFoundError
      else if file_on_way (files w) (resolve (cwd w) path)
      then Inl (case files w (resolve (cwd w) path) of
                  Some (File c) \<Rightarrow> FileExistsError
                | _ \<Rightarrow> NotADirectoryError)
      else Inr (w\<lparr>files := make_dirs (files w) (resolve (cwd w) path)\<rparr>))"

text \<open>
  \<open>with open(path, 'w') as file: file.write(content)\<close>: the directory of the file must be
  there and the path must not be a directory; the file then holds exactly \<open>content\<close>.
\<close>

definition os_open_write :: "string \<Rightarrow> string \<Rightarrow> world \<Rightarrow> oserror + world" where
  "os_open_write path content w =
     (if path = [] then Inl FileNotFoundError
      else if names_directory path \<or> resolve (cwd w) path = [] then Inl IsADirectoryError
      else if file_on_way (files w) (butlast (resolve (cwd w) path)) then Inl NotADirectoryError
      else if \<not> dir_chain (files w) (butlast (resolve (cwd w) path)) then Inl FileNotFoundError
      else if files w (resolve (cwd w) path) = Some Dir then Inl IsADirectoryError
      else Inr (w\<lparr>files := (files w)(resolve (cwd w) path \<mapsto> File content)\<rparr>))"

section \<open>The Filesystem Materializer\<close>

text \<open>\<open>next((code for file, code in code_blocks if file == key), None)\<close>.\<close>

fun lookup_code :: "string \<Rightarrow> (string \<times> string) list \<Rightarrow> string option" where
  "lookup_code key [] = None"
| "lookup_code key ((file, code) # rest) = (if file = key then Some code else lookup_code key rest)"

text \<open>
  \<open>create_folders_and_files\<close> and its loop over \<open>structure.items()\<close>. A structure that is
  no \<open>dict\<close> has no \<open>items\<close>: the call raises \<open>AttributeError\<close>, which no handler of the
  script catches. The handlers catch the errors of the two file system operations only.
\<close>

text \<open>The panels the materializer prints.\<close>

definition folder_created_panel :: "string \<Rightarrow> event" where
  "folder_created_panel path =
     Panel (''Created folder: [bold]'' @ path @ ''[/bold]'') ''[bold blue]Folder Creation[/bold blue]''"

definition folder_error_panel :: "string \<Rightarrow> oserror \<Rightarrow> event" where
  "folder_error_panel path e =
     Panel (''Error creating folder: [bold]'' @ path @ ''[/bold]\<newline>Error: '' @ str_oserror e)
       ''[bold red]Folder Creation Error[/bold red]''"

definition file_created_panel :: "string \<Rightarrow> event" where
  "file_created_panel path =
     Panel (''Created file: [bold]'' @ path @ ''[/bold]'') ''[bold green]File Creation[/bold green]''"

definition file_error_panel :: "string \<Rightarrow> oserror \<Rightarrow> event" where
  "file_error_panel path e =
     Panel (''Error creating file: [bold]'' @ path @ ''[/bold]\<newline>Error: '' @ str_oserror e)
       ''[bold red]File Creation Error[/bold red]''"

definition missing_code_panel :: "string \<Rightarrow> event" where
  "missing_code_panel key =
     Panel (''Code content not found for file: [bold]'' @ key @ ''[/bold]'')
       ''[bold yellow]Missing Code Content[/bold yellow]''"

definition project_created_panel :: "string \<Rightarrow> event" where
  "project_created_panel project_name =
     Panel (''Created project folder: [bold]'' @ project_name @ ''[/bold]'')
       ''[bold blue]Project Folder Creation[/bold blue]''"

definition project_error_panel :: "string \<Rightarrow> oserror \<Rightarrow> event" where
  "project_error_panel project_name e =
     Panel (''Error creating project folder: [bold]'' @ project_name @ ''[/bold]\<newline>Error: '' @
            str_oserror e)
       ''[bold red]Project Folder Creation Error[/bold red]''"

function (sequential) create_folders_and_files ::
  "string \<Rightarrow> json \<Rightarrow> (string \<times> string) list \<Rightarrow> world \<Rightarrow> error + world"
and walk_items ::
  "string \<Rightarrow> (string \<times> json) list \<Rightarrow> (string \<times> string) list \<Rightarrow> world \<Rightarrow> error + world"
where
  "create_folders_and_files current_path (JObject items) code_blocks w =
     walk_items current_path items code_blocks w"
| "create_folders_and_files current_path structure code_blocks w = Inl AttributeError"
| "walk_items current_path [] code_blocks w = Inr w"
| "walk_items current_path ((key, value) # rest) code_blocks w =
     (if is_dict value
      then
        (case os_makedirs (os_path_join current_path key) w of
           Inr w1 \<Rightarrow>
             (case create_folders_and_files (os_path_join current_path key) value code_blocks
                     (console_print (folder_created_panel (os_path_join current_path key)) w1) of
                Inr w2 \<Rightarrow> walk_items current_path rest code_blocks w2
              | Inl e \<Rightarrow> Inl e)
         | Inl e \<Rightarrow>
             walk_items current_path rest code_blocks
               (console_print (folder_error_panel (os_path_join current_path key) e) w))
      else
        (case lookup_code key code_blocks of
           Some code_content \<Rightarrow>
             (if code_content \<noteq> []
              then
                (case os_open_write (os_path_join current_path key) code_content w of
                   Inr w1 \<Rightarrow>
                     walk_items current_path rest code_blocks
                       (console_print (file_created_panel (os_path_join current_path key)) w1)
                 | Inl e \<Rightarrow>
                     walk_items current_path rest code_blocks
                       (console_print (file_error_panel (os_path_join current_path key) e) w))
              else
                walk_items current_path rest code_blocks
                  (console_print (missing_code_panel key) w))
         | None \<Rightarrow>
             walk_items current_path rest code_blocks
               (console_print (missing_code_panel key) w)))"
  by pat_completeness auto
termination
  by (relation "measure (\<lambda>x. case x of
         Inl (current_path, structure, code_blocks, w) \<Rightarrow> size structure
       | Inr (current_path, items, code_blocks, w) \<Rightarrow> size_list (size_prod (\<lambda>k. 0) size) items)")
     auto

text \<open>\<open>create_folder_structure\<close>: the project folder, then the walk from it.\<close>

definition create_folder_structure ::
  "string \<Rightarrow> json \<Rightarrow> (string \<times> string) list \<Rightarrow> world \<Rightarrow> error + world" where
  "create_folder_structure project_name folder_structure code_blocks w =
     create_folders_and_files project_name folder_structure code_blocks
       (case os_makedirs project_name w of
          Inr w1 \<Rightarrow> console_print (project_created_panel project_name) w1
        | Inl e \<Rightarrow> console_print (project_error_panel project_name e) w)"

section \<open>The Structured Output Parser: the folder structure\<close>

text \<open>The text before and behind the first occurrence of \<open>tag\<close>.\<close>

fun split_first :: "string \<Rightarrow> string \<Rightarrow> (string \<times> string) option" where
  "split_first tag [] = (if tag = [] then Some ([], []) else None)"
| "split_first tag (c # cs) =
     (if prefix tag (c # cs) then Some ([], drop (length tag) (c # cs))
      else map_option (\<lambda>(before, behind). (c # before, behind)) (split_first tag cs))"

text \<open>
  Group 1 of \<open>re.search(r'<folder_structure>(.*?)</folder_structure>', s, re.DOTALL)\<close>:
  the text between the first opening tag and the first closing tag behind it.
\<close>

definition folder_structure_match :: "string \<Rightarrow> string option" where
  "folder_structure_match s =
     (case split_first ''<folder_structure>'' s of
        None \<Rightarrow> None
      | Some (before, behind) \<Rightarrow> map_option fst (split_first ''</folder_structure>'' behind))"

text \<open>
  Lines 291 to 302 of the script. \<open>json.loads\<close> is the decoder of the standard library,
  a parameter here: it returns the decoded value, or \<open>Inl\<close> with the message of its
  \<open>JSONDecodeError\<close>.
\<close>

definition json_error_panel :: "string \<Rightarrow> event" where
  "json_error_panel e = Panel (''Error parsing JSON: '' @ e) ''[bold red]JSON Parsing Error[/bold red]''"

definition invalid_json_panel :: "string \<Rightarrow> event" where
  "invalid_json_panel json_string =
     Panel (''Invalid JSON string: [bold]'' @ json_string @ ''[/bold]'')
       ''[bold red]Invalid JSON String[/bold red]''"

definition parse_folder_structure ::
  "(string \<Rightarrow> string + json) \<Rightarrow> string \<Rightarrow> world \<Rightarrow> json \<times> world" where
  "parse_folder_structure json_loads refined_output w =
     (case folder_structure_match refined_output of
        None \<Rightarrow> (JObject [], w)
      | Some inner \<Rightarrow>
          (case json_loads (strip inner) of
             Inr v \<Rightarrow> (v, w)
           | Inl e \<Rightarrow>
               (JObject [],
                console_print (invalid_json_panel (strip inner))
                  (console_print (json_error_panel e) w))))"

text \<open>
  Lines 291 to 309: the folder structure is parsed and the project is materialized. The
  project name and the code blocks are what the two other regular expressions found in
  the refined output.
\<close>

definition parse_and_materialize ::
  "(string \<Rightarrow> string + json) \<Rightarrow> string \<Rightarrow> (string \<times> string) list \<Rightarrow> string \<Rightarrow> world \<Rightarrow> error + world" where
  "parse_and_materialize json_loads project_name code_blocks refined_output w =
     (case parse_folder_structure json_loads refined_output w of
        (folder_structure, w1) \<Rightarrow> create_folder_structure project_name folder_structure code_blocks w1)"

section \<open>Running the materializer twice\<close>

definition materialize_twice ::
  "string \<Rightarrow> json \<Rightarrow> (string \<times> string) list \<Rightarrow> world \<Rightarrow> error + world" where
  "materialize_twice project_name folder_structure code_blocks w =
     (case create_folder_structure project_name folder_structure code_blocks w of
        Inr w1 \<Rightarrow> create_folder_structure project_name folder_structure code_blocks w1
      | Inl e \<Rightarrow> Inl e)"

text \<open>A plain name: one name of a path, not empty, without \<open>/\<close>, and neither \<open>.\<close> nor \<open>..\<close>.\<close>

definition plain_name :: "string \<Rightarrow> bool" where
  "plain_name k = (k \<noteq> [] \<and> CHR ''/'' \<notin> set k \<and> k \<noteq> ''.'' \<and> k \<noteq> ''..'')"

text \<open>The entries of a \<open>dict\<close>; any other value has none.\<close>

fun dict_items :: "json \<Rightarrow> (string \<times> json) list" where
  "dict_items (JObject items) = items"
| "dict_items v = []"

text \<open>
  Entries with plain names: the keys are plain names and, as the keys of a \<open>dict\<close>, differ
  from each other; the same holds in every \<open>dict\<close> below.
\<close>

function plain_items :: "(string \<times> json) list \<Rightarrow> bool" where
  "plain_items [] = True"
| "plain_items ((k, v) # rest) =
     (plain_name k \<and> k \<notin> fst ` set rest \<and> plain_items (dict_items v) \<and> plain_items rest)"
  by pat_completeness auto
termination
proof (relation "measure (size_list (size_prod (\<lambda>k. 0) size))")
  fix k :: string and v :: json and rest :: "(string \<times> json) list"
  have "size_list (size_prod (\<lambda>k. 0) size) (dict_items v) \<le> size v"
    by (cases v) simp_all
  then show "(dict_items v, (k, v) # rest) \<in> measure (size_list (size_prod (\<lambda>k. 0) size))"
    by simp
qed simp_all

text \<open>
  What the walk does to the file system, told on locations: a leaf entry writes its
  file, a \<open>dict\<close> entry makes its directory and walks on below it.
\<close>

definition loc_leaf :: "(string \<times> string) list \<Rightarrow> string list \<Rightarrow> string \<Rightarrow> filesystem \<Rightarrow> filesystem" where
  "loc_leaf code_blocks loc key fs =
     (case lookup_code key code_blocks of
        Some code_content \<Rightarrow>
          (if code_content \<noteq> [] \<and> \<not> file_on_way fs (butlast loc) \<and> dir_chain fs (butlast loc) \<and>
              fs loc \<noteq> Some Dir
           then fs(loc \<mapsto> File code_content) else fs)
      | None \<Rightarrow> fs)"

function loc_items ::
  "(string \<times> string) list \<Rightarrow> string list \<Rightarrow> (string \<times> json) list \<Rightarrow> filesystem \<Rightarrow> filesystem" where
  "loc_items code_blocks loc [] fs = fs"
| "loc_items code_blocks loc ((key, v) # rest) fs =
     loc_items code_blocks loc rest
       (if is_dict v
        then (if file_on_way fs (loc @ [key]) then fs
              else loc_items code_blocks (loc @ [key]) (dict_items v) (make_dirs fs (loc @ [key])))
        else loc_leaf code_blocks (loc @ [key]) key fs)"
  by pat_completeness auto
termination
proof (relation "measure (\<lambda>(code_blocks, loc, items, fs). size_list (size_prod (\<lambda>k. 0) size) items)")
  fix key :: string and v :: json and rest :: "(string \<times> json) list"
    and code_blocks :: "(string \<times> string) list" and loc :: "string list" and fs fs' :: filesystem
  have "size_list (size_prod (\<lambda>k. 0) size) (dict_items v) \<le> size v"
    by (cases v) simp_all
  then show "((code_blocks, loc @ [key], dict_items v, make_dirs fs (loc @ [key])),
              (code_blocks, loc, (key, v) # rest, fs))
             \<in> measure (\<lambda>(code_blocks, loc, items, fs). size_list (size_prod (\<lambda>k. 0) size) items)"
    by simp
qed simp_all

definition loc_entry ::
  "(string \<times> string) list \<Rightarrow> string list \<Rightarrow> string \<Rightarrow> json \<Rightarrow> filesystem \<Rightarrow> filesystem" where
  "loc_entry code_blocks loc key v fs =
     (if is_dict v
      then (if file_on_way fs (loc @ [key]) then fs
            else loc_items code_blocks (loc @ [key]) (dict_items v) (make_dirs fs (loc @ [key])))
      else loc_leaf code_blocks (loc @ [key]) key fs)"

section \<open>Scripted gateways, decoders and worlds for concrete runs\<close>




text \<open>The first reply has 4000 characters, every later one is short.\<close>

definition long_then_short_gateway :: gateway where
  "long_then_short_gateway i m p = (if i = 0 then replicate 4000 CHR ''a'' else ''b'')"

definition empty_world :: world where
  "empty_world = \<lparr>calls = [], console = [], files = Map.empty, cwd = []\<rparr>"


definition array_decoder :: "string \<Rightarrow> string + json" where
  "array_decoder s = Inr (JArray [JString ''main.py''])"


text \<open>Two trees: one with a key that is a path, one with plain names.\<close>

definition nested_key_tree :: json where
  "nested_key_tree = JObject [(''sub/f.py'', JNull), (''sub'', JObject [])]"

definition sample_tree_items :: "(string \<times> json) list" where
  "sample_tree_items = [(''src'', JObject [(''main.py'', JNull)]), (''README.md'', JNull)]"

section \<open>Properties of Python strings\<close>







section \<open>Properties of the Sub-task Executor and the Refiner\<close>

lemma strip_eq_Nil_iff: "strip s = [] \<longleftrightarrow> (\<forall>c \<in> set s. isspace c)"
proof
  assume "strip s = []"
  then have a: "\<forall>x \<in> set (dropWhile isspace s). isspace x"
    by (simp add: strip_def)
  have "dropWhile isspace s = []"
  proof (rule ccontr)
    assume n: "dropWhile isspace s \<noteq> []"
    then have "\<not> isspace (hd (dropWhile isspace s))" by (rule hd_dropWhile)
    moreover have "hd (dropWhile isspace s) \<in> set (dropWhile isspace s)" using n by simp
    ultimately show False using a by blast
  qed
  then show "\<forall>c \<in> set s. isspace c" by simp
next
  assume "\<forall>c \<in> set s. isspace c"
  then show "strip s = []" by (auto simp: strip_def dest: set_dropWhileD)
qed

lemma full_prompt_not_blank: "strip (full_prompt prompt ts c) \<noteq> []"
proof -
  have "CHR ''P'' \<in> set (full_prompt prompt ts c)"
    by (simp add: full_prompt_def previous_tasks_summary_def)
  moreover have "\<not> isspace CHR ''P''"
    by (simp add: isspace_def)
  ultimately show ?thesis
    by (auto simp: strip_eq_Nil_iff)
qed

lemma haiku_sub_agent_no_error:
  "haiku_sub_agent g prompt ts c w = Some y \<Longrightarrow> \<exists>t. fst y = Inr t"
proof (rule haiku_sub_agent.raw_induct [where P = "\<lambda>g prompt ts c w y. \<exists>t. fst y = Inr t"], goal_cases)
  case (1 h g prompt ts c w y)
  then show ?case
    by (auto simp: full_prompt_not_blank split: prod.splits if_splits sum.splits Option.bind_splits)
qed



text \<open>
  C9. Whatever the instruction and the history, the prompt composed by the Sub-task
  Executor starts with the header \<open>Previous Haiku tasks:\<close>, so it is not empty after
  trimming, and no call of the executor ends in the \<open>ValueError\<close> (or in any other
  exception of the model).
\<close>

theorem C9_prompt_never_empty:
  "prefix ''Previous Haiku tasks:'' (full_prompt prompt ts c) \<and>
   strip (full_prompt prompt ts c) \<noteq> [] \<and>
   (\<forall>e w'. haiku_sub_agent g prompt ts c w \<noteq> Some (Inl e, w'))"
proof (intro conjI allI)
  show "prefix ''Previous Haiku tasks:'' (full_prompt prompt ts c)"
    by (simp add: full_prompt_def previous_tasks_summary_def)
  show "strip (full_prompt prompt ts c) \<noteq> []"
    by (rule full_prompt_not_blank)
  fix e w'
  show "haiku_sub_agent g prompt ts c w \<noteq> Some (Inl e, w')"
    using haiku_sub_agent_no_error [of g prompt ts c w "(Inl e, w')"] by auto
qed



text \<open>
  C2, at the Refiner. The gateway answers the refiner's first request with 4000
  characters and the second with a short text. \<open>opus_refine\<close> calls itself with
  \<open>continuation=True\<close>, a flag it never reads: the second request carries the original
  content again, not an instruction to continue.
\<close>

theorem C2_refiner_repeats_request:
  "\<exists>w'. opus_refine long_then_short_gateway ''o'' [''r''] ''f'' ''p'' False empty_world =
            Some (replicate 4000 CHR ''a'' @ ''b'', w') \<and>
          calls w' = [(REFINER_MODEL, refine_content ''o'' [''r'']),
                      (REFINER_MODEL, refine_content ''o'' [''r''])]"
  apply (subst opus_refine.simps)
  apply (simp add: client_chat_def console_print_def long_then_short_gateway_def empty_world_def)
  apply (subst opus_refine.simps)
  apply (simp add: client_chat_def console_print_def long_then_short_gateway_def)
  done

section \<open>Properties of the orchestration loop\<close>































section \<open>Properties of the parser and the materializer\<close>



lemma walk_total:
  "is_dict tree \<longrightarrow> (\<exists>w'. create_folders_and_files current_path tree code_blocks w = Inr w')"
  "\<exists>w'. walk_items current_path' items code_blocks' w2 = Inr w'"
proof (induction current_path tree code_blocks w and current_path' items code_blocks' w2
    rule: create_folders_and_files_walk_items.induct)
  case (4 current_path key v rest code_blocks w)
  show ?case
  proof (cases "is_dict v")
    case True
    show ?thesis
    proof (cases "os_makedirs (os_path_join current_path key) w")
      case (Inl e)
      with True 4(1) show ?thesis by simp
    next
      case (Inr w1)
      from 4(2) [OF True Inr] True obtain w2 where
        c: "create_folders_and_files (os_path_join current_path key) v code_blocks
              (console_print (folder_created_panel (os_path_join current_path key)) w1) = Inr w2"
        by blast
      from 4(3) [OF True Inr c] True Inr c show ?thesis by simp
    qed
  next
    case False
    with 4(4-7) show ?thesis
      by (auto split: option.splits sum.splits)
  qed
qed simp_all







lemma not_dict_AttributeError:
  "\<not> is_dict v \<Longrightarrow> create_folders_and_files current_path v code_blocks w = Inl AttributeError"
  by (cases v) simp_all


lemma match_broken: "folder_structure_match ''<folder_structure>{</folder_structure>'' = Some ''{''"
  by (simp add: folder_structure_match_def)



text \<open>
  C10. A tree that is no mapping makes \<open>create_folders_and_files\<close> raise
  \<open>AttributeError\<close>; \<open>create_folder_structure\<close> and the script around it let it pass, so
  the run ends there when the text between the tags decodes to such a value.
\<close>

theorem C10_non_mapping_tree:
  assumes n: "\<not> is_dict v"
  shows "create_folders_and_files current_path v code_blocks w = Inl AttributeError \<and>
         create_folder_structure project_name v code_blocks w = Inl AttributeError \<and>
         (\<forall>inner. folder_structure_match refined_output = Some inner \<and> json_loads (strip inner) = Inr v \<longrightarrow>
            parse_and_materialize json_loads project_name code_blocks refined_output w = Inl AttributeError)"
proof (intro conjI allI impI)
  show "create_folders_and_files current_path v code_blocks w = Inl AttributeError"
    by (rule not_dict_AttributeError [OF n])
  show c: "create_folder_structure project_name v code_blocks w = Inl AttributeError"
    by (simp add: create_folder_structure_def not_dict_AttributeError [OF n])
  fix inner
  assume "folder_structure_match refined_output = Some inner \<and> json_loads (strip inner) = Inr v"
  then show "parse_and_materialize json_loads project_name code_blocks refined_output w = Inl AttributeError"
    by (simp add: parse_and_materialize_def parse_folder_structure_def c)
qed

theorem C10_non_mapping_tree_witness:
  "parse_and_materialize array_decoder ''app'' [(''main.py'', ''x = 1'')]
     ''<folder_structure>{</folder_structure>'' empty_world = Inl AttributeError"
proof -
  have n: "\<not> is_dict (JArray [JString ''main.py''])" by simp
  have a: "array_decoder (strip ''{'') = Inr (JArray [JString ''main.py''])"
    by (simp add: array_decoder_def)
  from C10_non_mapping_tree [OF n, of _ _ _ _ "''<folder_structure>{</folder_structure>''" array_decoder] match_broken a
  show ?thesis by blast
qed

section \<open>The materializer run twice\<close>

lemma dir_chain_iff: "dir_chain fs loc \<longleftrightarrow> (\<forall>q. prefix q loc \<and> q \<noteq> [] \<longrightarrow> fs q = Some Dir)"
  by (auto simp: dir_chain_def)

lemma file_on_way_iff:
  "file_on_way fs loc \<longleftrightarrow> (\<exists>q. prefix q loc \<and> q \<noteq> [] \<and> (\<exists>c. fs q = Some (File c)))"
  by (auto simp: file_on_way_def)

lemma file_on_way_snoc:
  "dir_chain fs loc \<Longrightarrow> file_on_way fs (loc @ [k]) \<longleftrightarrow> (\<exists>c. fs (loc @ [k]) = Some (File c))"
  by (auto simp: file_on_way_iff dir_chain_iff prefix_snoc)

lemma dir_chain_not_file_on_way: "dir_chain fs loc \<Longrightarrow> \<not> file_on_way fs loc"
  by (auto simp: file_on_way_iff dir_chain_iff)

lemma file_on_way_below: "file_on_way fs loc \<Longrightarrow> file_on_way fs (loc @ [k])"
  by (auto simp: file_on_way_iff prefix_snoc)

lemma make_dirs_snoc: "dir_chain fs loc \<Longrightarrow> make_dirs fs (loc @ [k]) = fs(loc @ [k] \<mapsto> Dir)"
  by (rule ext) (auto simp: make_dirs_def dir_chain_iff prefix_snoc)

lemma make_dirs_there: "dir_chain fs loc \<Longrightarrow> make_dirs fs loc = fs"
  by (rule ext) (auto simp: make_dirs_def dir_chain_iff)

lemma dir_chain_make_dirs: "dir_chain (make_dirs fs loc) loc"
  by (simp add: make_dirs_def dir_chain_iff)

lemma dir_chain_agree:
  "dir_chain fs loc \<Longrightarrow> (\<And>q. \<not> prefix (loc @ [k]) q \<Longrightarrow> fs' q = fs q) \<Longrightarrow> dir_chain fs' loc"
proof -
  assume d: "dir_chain fs loc" and a: "\<And>q. \<not> prefix (loc @ [k]) q \<Longrightarrow> fs' q = fs q"
  have "\<not> prefix (loc @ [k]) q" if "prefix q loc" for q
  proof
    assume "prefix (loc @ [k]) q"
    from this that have "prefix (loc @ [k]) loc" by (rule prefix_order.trans)
    then show False by (auto simp: prefix_def)
  qed
  with d a show ?thesis by (auto simp: dir_chain_iff)
qed

lemma loc_leaf_frame: "q \<noteq> loc \<Longrightarrow> loc_leaf cb loc key fs q = fs q"
  by (simp add: loc_leaf_def split: option.splits)

lemma loc_items_Cons:
  "loc_items cb loc ((key, v) # rest) fs = loc_items cb loc rest (loc_entry cb loc key v fs)"
  by (simp add: loc_entry_def)

text \<open>The walk below a location changes nothing outside the entries' own names.\<close>

lemma loc_items_frame:
  "dir_chain fs loc \<Longrightarrow> (\<forall>q. (\<forall>k \<in> fst ` set items. \<not> prefix (loc @ [k]) q) \<longrightarrow>
     loc_items cb loc items fs q = fs q)"
proof (induction cb loc items fs rule: loc_items.induct)
  case (1 cb loc fs)
  show ?case by simp
next
  case (2 cb loc key v rest fs)
  let ?e = "loc_entry cb loc key v fs"
  have e: "?e q = fs q" if "\<not> prefix (loc @ [key]) q" for q
  proof (cases "is_dict v")
    case False
    with that show ?thesis by (auto simp: loc_entry_def loc_leaf_frame)
  next
    case True
    show ?thesis
    proof (cases "file_on_way fs (loc @ [key])")
      case True
      with \<open>is_dict v\<close> show ?thesis by (simp add: loc_entry_def)
    next
      case False
      have g: "make_dirs fs (loc @ [key]) = fs(loc @ [key] \<mapsto> Dir)"
        using "2.prems" by (rule make_dirs_snoc)
      have "dir_chain (make_dirs fs (loc @ [key])) (loc @ [key])"
        by (rule dir_chain_make_dirs)
      from "2.IH"(1) [OF True False this]
      have "(\<forall>k \<in> fst ` set (dict_items v). \<not> prefix ((loc @ [key]) @ [k]) q) \<longrightarrow>
          loc_items cb (loc @ [key]) (dict_items v) (make_dirs fs (loc @ [key])) q =
          make_dirs fs (loc @ [key]) q"
        by blast
      moreover have "\<not> prefix ((loc @ [key]) @ [k]) q" for k
        using that by (auto simp: prefix_def)
      ultimately have "loc_items cb (loc @ [key]) (dict_items v) (make_dirs fs (loc @ [key])) q =
          make_dirs fs (loc @ [key]) q"
        by blast
      with True False g that show ?thesis
        by (auto simp: loc_entry_def)
    qed
  qed
  then have d: "dir_chain ?e loc"
    using "2.prems" dir_chain_agree by blast
  have ih: "\<forall>q. (\<forall>k \<in> fst ` set rest. \<not> prefix (loc @ [k]) q) \<longrightarrow> loc_items cb loc rest ?e q = ?e q"
    using "2.IH"(2) d by (simp add: loc_entry_def)
  show ?case
  proof (intro allI impI)
    fix q
    assume a: "\<forall>k \<in> fst ` set ((key, v) # rest). \<not> prefix (loc @ [k]) q"
    then have "\<not> prefix (loc @ [key]) q" and "\<forall>k \<in> fst ` set rest. \<not> prefix (loc @ [k]) q"
      by auto
    with e ih show "loc_items cb loc ((key, v) # rest) fs q = fs q"
      by (simp add: loc_items_Cons del: loc_items.simps(2))
  qed
qed

lemma loc_entry_frame:
  assumes "dir_chain fs loc" and "\<not> prefix (loc @ [key]) q"
  shows "loc_entry cb loc key v fs q = fs q"
proof -
  from loc_items_frame [OF assms(1), of "[(key, v)]" cb] assms(2)
  show ?thesis by (simp add: loc_items_Cons del: loc_items.simps(2))
qed

lemma loc_entry_dir_chain: "dir_chain fs loc \<Longrightarrow> dir_chain (loc_entry cb loc key v fs) loc"
  using loc_entry_frame dir_chain_agree by blast

lemma loc_items_dir_chain: "dir_chain fs loc \<Longrightarrow> dir_chain (loc_items cb loc items fs) loc"
proof (induction items arbitrary: fs)
  case Nil
  then show ?case by simp
next
  case (Cons a items)
  obtain key v where "a = (key, v)" by (cases a)
  with Cons show ?case
    by (simp add: loc_items_Cons loc_entry_dir_chain del: loc_items.simps(2))
qed

text \<open>Below a file nothing can be made.\<close>

lemma loc_items_blocked: "file_on_way fs loc \<Longrightarrow> loc_items cb loc items fs = fs"
proof (induction items)
  case Nil
  then show ?case by simp
next
  case (Cons a items)
  obtain key v where a: "a = (key, v)" by (cases a)
  have "loc_entry cb loc key v fs = fs"
    using Cons.prems
    by (auto simp: loc_entry_def loc_leaf_def file_on_way_below split: option.splits)
  with Cons a show ?case
    by (simp add: loc_items_Cons del: loc_items.simps(2))
qed

lemma loc_leaf_local:
  assumes "dir_chain fs loc" and "dir_chain fs' loc" and "fs (loc @ [key]) = fs' (loc @ [key])"
  shows "loc_leaf cb (loc @ [key]) key fs (loc @ [key]) = loc_leaf cb (loc @ [key]) key fs' (loc @ [key])"
  using assms
  by (auto simp: loc_leaf_def dir_chain_not_file_on_way split: option.splits)

text \<open>What the walk leaves below a location depends on what was there below it.\<close>

lemma loc_items_local:
  "\<forall>fs'. dir_chain fs loc \<and> dir_chain fs' loc \<and> (\<forall>q. prefix loc q \<longrightarrow> fs q = fs' q) \<longrightarrow>
     (\<forall>q. prefix loc q \<longrightarrow> loc_items cb loc items fs q = loc_items cb loc items fs' q)"
proof (induction cb loc items fs rule: loc_items.induct)
  case (1 cb loc fs)
  show ?case by simp
next
  case (2 cb loc key v rest fs)
  show ?case
  proof (intro allI impI, elim conjE)
    fix fs' q
    assume d: "dir_chain fs loc" and d': "dir_chain fs' loc"
      and a: "\<forall>q. prefix loc q \<longrightarrow> fs q = fs' q" and q: "prefix loc q"
    let ?e = "loc_entry cb loc key v fs" and ?e' = "loc_entry cb loc key v fs'"
    have below: "prefix loc p" if "prefix (loc @ [key]) p" for p
      using that by (auto simp: prefix_def)
    have at: "fs (loc @ [key]) = fs' (loc @ [key])"
      using a by simp
    have e: "?e p = ?e' p" if p: "prefix (loc @ [key]) p" for p
    proof (cases "is_dict v")
      case False
      have "p = loc @ [key] \<or> p \<noteq> loc @ [key]" by simp
      then show ?thesis
      proof
        assume "p = loc @ [key]"
        with False loc_leaf_local [OF d d' at] show ?thesis
          by (simp add: loc_entry_def)
      next
        assume "p \<noteq> loc @ [key]"
        with False a below [OF p] show ?thesis
          by (simp add: loc_entry_def loc_leaf_frame)
      qed
    next
      case True
      have b: "file_on_way fs (loc @ [key]) = file_on_way fs' (loc @ [key])"
        using d d' at by (simp add: file_on_way_snoc)
      show ?thesis
      proof (cases "file_on_way fs (loc @ [key])")
        case True
        with b \<open>is_dict v\<close> a below [OF p] show ?thesis
          by (simp add: loc_entry_def)
      next
        case False
        let ?g = "make_dirs fs (loc @ [key])" and ?g' = "make_dirs fs' (loc @ [key])"
        have "\<forall>q. prefix (loc @ [key]) q \<longrightarrow> ?g q = ?g' q"
          using a below by (simp add: make_dirs_def)
        with "2.IH"(1) [OF True False] dir_chain_make_dirs [of fs "loc @ [key]"]
          dir_chain_make_dirs [of fs' "loc @ [key]"] p
        have "loc_items cb (loc @ [key]) (dict_items v) ?g p =
              loc_items cb (loc @ [key]) (dict_items v) ?g' p"
          by blast
        with True False b show ?thesis
          by (simp add: loc_entry_def)
      qed
    qed
    have e_all: "\<forall>p. prefix loc p \<longrightarrow> ?e p = ?e' p"
    proof (intro allI impI)
      fix p
      assume pl: "prefix loc p"
      show "?e p = ?e' p"
      proof (cases "prefix (loc @ [key]) p")
        case True
        then show ?thesis by (rule e)
      next
        case False
        with loc_entry_frame [OF d False] loc_entry_frame [OF d' False] a pl
        show ?thesis by simp
      qed
    qed
    have "dir_chain ?e loc" and "dir_chain ?e' loc"
      using d d' by (simp_all add: loc_entry_dir_chain)
    with "2.IH"(2) e_all q
    have "loc_items cb loc rest ?e q = loc_items cb loc rest ?e' q"
      unfolding loc_entry_def by blast
    then show "loc_items cb loc ((key, v) # rest) fs q = loc_items cb loc ((key, v) # rest) fs' q"
      by (simp add: loc_items_Cons del: loc_items.simps(2))
  qed
qed

lemma loc_entry_local:
  assumes d: "dir_chain fs loc" and d': "dir_chain fs' loc"
      and a: "\<forall>q. prefix (loc @ [key]) q \<longrightarrow> fs q = fs' q"
      and p: "prefix (loc @ [key]) p"
  shows "loc_entry cb loc key v fs p = loc_entry cb loc key v fs' p"
proof (cases "is_dict v")
  case False
  have at: "fs (loc @ [key]) = fs' (loc @ [key])" using a by simp
  show ?thesis
  proof (cases "p = loc @ [key]")
    case True
    with False loc_leaf_local [OF d d' at] show ?thesis
      by (simp add: loc_entry_def)
  next
    case ne: False
    with False a p show ?thesis
      by (simp add: loc_entry_def loc_leaf_frame)
  qed
next
  case True
  have at: "fs (loc @ [key]) = fs' (loc @ [key])" using a by simp
  have b: "file_on_way fs (loc @ [key]) = file_on_way fs' (loc @ [key])"
    using d d' at by (simp add: file_on_way_snoc)
  show ?thesis
  proof (cases "file_on_way fs (loc @ [key])")
    case True
    with b \<open>is_dict v\<close> a p show ?thesis
      by (simp add: loc_entry_def)
  next
    case False
    let ?g = "make_dirs fs (loc @ [key])" and ?g' = "make_dirs fs' (loc @ [key])"
    have "\<forall>q. prefix (loc @ [key]) q \<longrightarrow> ?g q = ?g' q"
      using a by (simp add: make_dirs_def)
    with loc_items_local [of ?g "loc @ [key]" cb "dict_items v"]
      dir_chain_make_dirs [of fs "loc @ [key]"] dir_chain_make_dirs [of fs' "loc @ [key]"] p
    have "loc_items cb (loc @ [key]) (dict_items v) ?g p =
          loc_items cb (loc @ [key]) (dict_items v) ?g' p"
      by blast
    with True False b show ?thesis
      by (simp add: loc_entry_def)
  qed
qed

lemma loc_leaf_idem:
  assumes "dir_chain fs loc"
  shows "loc_leaf cb (loc @ [key]) key (loc_leaf cb (loc @ [key]) key fs) = loc_leaf cb (loc @ [key]) key fs"
proof (cases "lookup_code key cb")
  case None
  then show ?thesis by (simp add: loc_leaf_def)
next
  case (Some c)
  show ?thesis
  proof (cases "c \<noteq> [] \<and> fs (loc @ [key]) \<noteq> Some Dir")
    case False
    with Some assms show ?thesis
      by (auto simp: loc_leaf_def)
  next
    case True
    let ?f = "fs(loc @ [key] \<mapsto> File c)"
    have "dir_chain ?f loc"
      using assms by (rule dir_chain_agree [where k = key]) auto
    with True Some assms show ?thesis
      by (simp add: loc_leaf_def dir_chain_not_file_on_way)
  qed
qed

lemma other_key_frame:
  assumes "key \<notin> fst ` set rest" and "prefix (loc @ [key]) q"
  shows "\<forall>k \<in> fst ` set rest. \<not> prefix (loc @ [k]) q"
proof
  fix k
  assume k: "k \<in> fst ` set rest"
  show "\<not> prefix (loc @ [k]) q"
  proof
    assume "prefix (loc @ [k]) q"
    with assms(2) obtain a b where "q = (loc @ [key]) @ a" and "q = (loc @ [k]) @ b"
      by (auto simp: prefix_def)
    then have "key = k" by simp
    with k assms(1) show False by simp
  qed
qed

text \<open>
  On entries with plain names, below a directory that is there, walking once more
  changes nothing.
\<close>

lemma loc_items_idem:
  "dir_chain fs loc \<and> plain_items items \<longrightarrow>
     loc_items cb loc items (loc_items cb loc items fs) = loc_items cb loc items fs"
proof (induction cb loc items fs rule: loc_items.induct)
  case (1 cb loc fs)
  show ?case by simp
next
  case (2 cb loc key v rest fs)
  show ?case
  proof (intro impI, elim conjE)
    assume d: "dir_chain fs loc" and pl: "plain_items ((key, v) # rest)"
    from pl have nk: "key \<notin> fst ` set rest" and ps: "plain_items (dict_items v)"
      and pr: "plain_items rest"
      by simp_all
    let ?a = "loc_entry cb loc key v fs"
    let ?y = "loc_items cb loc rest ?a"
    have da: "dir_chain ?a loc" using d by (rule loc_entry_dir_chain)
    have dy: "dir_chain ?y loc" using da by (rule loc_items_dir_chain)
    have ea: "loc_entry cb loc key v ?a = ?a"
    proof (cases "is_dict v")
      case False
      with d show ?thesis by (simp add: loc_entry_def loc_leaf_idem)
    next
      case True
      show ?thesis
      proof (cases "file_on_way fs (loc @ [key])")
        case True
        with \<open>is_dict v\<close> show ?thesis by (simp add: loc_entry_def)
      next
        case False
        let ?g = "make_dirs fs (loc @ [key])"
        let ?s = "loc_items cb (loc @ [key]) (dict_items v) ?g"
        have a: "?a = ?s" using True False by (simp add: loc_entry_def)
        have dg: "dir_chain ?g (loc @ [key])" by (rule dir_chain_make_dirs)
        then have ds: "dir_chain ?s (loc @ [key])" by (rule loc_items_dir_chain)
        then have nf: "\<not> file_on_way ?s (loc @ [key])" by (rule dir_chain_not_file_on_way)
        have ms: "make_dirs ?s (loc @ [key]) = ?s" using ds by (rule make_dirs_there)
        from "2.IH"(1) [OF True False] dg ps
        have "loc_items cb (loc @ [key]) (dict_items v) ?s = ?s" by blast
        with True nf ms have "loc_entry cb loc key v ?s = ?s"
          by (simp add: loc_entry_def)
        with a show ?thesis by simp
      qed
    qed
    have ya: "?y q = ?a q" if "prefix (loc @ [key]) q" for q
      using loc_items_frame [OF da, of rest cb] other_key_frame [OF nk that] by blast
    have ey: "loc_entry cb loc key v ?y = ?y"
    proof (rule ext)
      fix q
      show "loc_entry cb loc key v ?y q = ?y q"
      proof (cases "prefix (loc @ [key]) q")
        case False
        with dy show ?thesis by (rule loc_entry_frame)
      next
        case True
        have "loc_entry cb loc key v ?y q = loc_entry cb loc key v ?a q"
          using dy da _ True by (rule loc_entry_local) (simp add: ya)
        with ea ya [OF True] show ?thesis by simp
      qed
    qed
    from "2.IH"(2) da pr have "loc_items cb loc rest ?y = ?y"
      unfolding loc_entry_def by blast
    with ey show "loc_items cb loc ((key, v) # rest) (loc_items cb loc ((key, v) # rest) fs) =
        loc_items cb loc ((key, v) # rest) fs"
      by (simp add: loc_items_Cons del: loc_items.simps(2))
  qed
qed

lemma split_on_nonempty: "split_on c s \<noteq> []"
  by (induction s) (auto split: list.splits)

lemma split_on_append: "split_on c (a @ c # b) = split_on c a @ split_on c b"
proof (induction a)
  case Nil
  show ?case by simp
next
  case (Cons x xs)
  obtain y ys where "split_on c xs = y # ys"
    using split_on_nonempty [of c xs] by (cases "split_on c xs") auto
  with Cons show ?case by simp
qed

lemma split_on_absent: "c \<notin> set s \<Longrightarrow> split_on c s = [s]"
  by (induction s) auto

lemma walk_up_snoc: "k \<noteq> ''..'' \<Longrightarrow> walk_up loc (ns @ [k]) = walk_up loc ns @ [k]"
  by (induction ns arbitrary: loc) auto

lemma plain_join:
  assumes "plain_name k"
  shows "components (os_path_join cp k) = components cp @ [k]"
    and "last (split_on CHR ''/'' (os_path_join cp k)) = k"
    and "prefix ''/'' (os_path_join cp k) = prefix ''/'' cp"
    and "os_path_join cp k \<noteq> []"
proof -
  from assms have k: "k \<noteq> []" "CHR ''/'' \<notin> set k" "k \<noteq> ''.''" by (simp_all add: plain_name_def)
  then have np: "\<not> prefix ''/'' k" by (cases k) auto
  have sk: "split_on CHR ''/'' k = [k]" using k by (simp add: split_on_absent)
  have "components (os_path_join cp k) = components cp @ [k] \<and>
        last (split_on CHR ''/'' (os_path_join cp k)) = k \<and>
        prefix ''/'' (os_path_join cp k) = prefix ''/'' cp \<and> os_path_join cp k \<noteq> []"
  proof (cases "cp = []")
    case True
    with np sk k show ?thesis
      by (simp add: os_path_join_def components_def)
  next
    case False
    show ?thesis
    proof (cases "last cp = CHR ''/''")
      case True
      with False obtain b where cp: "cp = b @ ''/''"
        by (metis append_butlast_last_id)
      have s1: "split_on CHR ''/'' cp = split_on CHR ''/'' b @ [[]]"
        using split_on_append [of "CHR ''/''" b "[]"] by (simp add: cp)
      have s2: "split_on CHR ''/'' (cp @ k) = split_on CHR ''/'' b @ [k]"
        using split_on_append [of "CHR ''/''" b k] sk by (simp add: cp)
      have p: "prefix ''/'' (cp @ k) = prefix ''/'' cp"
        using False by (cases cp) auto
      have j: "os_path_join cp k = cp @ k"
        using np True by (simp add: os_path_join_def)
      show ?thesis
        using k False by (simp add: j s1 s2 p components_def)
    next
      case nl: False
      have s2: "split_on CHR ''/'' (cp @ CHR ''/'' # k) = split_on CHR ''/'' cp @ [k]"
        using split_on_append [of "CHR ''/''" cp k] sk by simp
      have p: "prefix ''/'' (cp @ CHR ''/'' # k) = prefix ''/'' cp"
        using False by (cases cp) auto
      have j: "os_path_join cp k = cp @ ''/'' @ k"
        using np False nl by (simp add: os_path_join_def)
      show ?thesis
        using k False by (simp add: j s2 p components_def)
    qed
  qed
  then show "components (os_path_join cp k) = components cp @ [k]"
    and "last (split_on CHR ''/'' (os_path_join cp k)) = k"
    and "prefix ''/'' (os_path_join cp k) = prefix ''/'' cp"
    and "os_path_join cp k \<noteq> []"
    by simp_all
qed

lemma resolve_join:
  assumes "plain_name k"
  shows "resolve wd (os_path_join cp k) = resolve wd cp @ [k]"
    and "\<not> names_directory (os_path_join cp k)"
proof -
  from assms have "k \<noteq> ''..''" by (simp add: plain_name_def)
  then show "resolve wd (os_path_join cp k) = resolve wd cp @ [k]"
    by (simp add: resolve_def plain_join [OF assms] walk_up_snoc)
  from assms show "\<not> names_directory (os_path_join cp k)"
    by (simp add: names_directory_def plain_join [OF assms] plain_name_def)
qed

lemma os_makedirs_join:
  assumes "plain_name k"
  shows "os_makedirs (os_path_join cp k) w = Inr w1 \<Longrightarrow>
           \<not> file_on_way (files w) (resolve (cwd w) cp @ [k]) \<and>
           files w1 = make_dirs (files w) (resolve (cwd w) cp @ [k]) \<and> cwd w1 = cwd w"
    and "os_makedirs (os_path_join cp k) w = Inl e \<Longrightarrow> file_on_way (files w) (resolve (cwd w) cp @ [k])"
  by (auto simp: os_makedirs_def resolve_join [OF assms] plain_join [OF assms] split: if_splits)

lemma os_open_write_join:
  assumes "plain_name k" and "lookup_code k cb = Some c" and "c \<noteq> []"
  shows "os_open_write (os_path_join cp k) c w = Inr w1 \<Longrightarrow>
           files w1 = loc_leaf cb (resolve (cwd w) cp @ [k]) k (files w) \<and> cwd w1 = cwd w"
    and "os_open_write (os_path_join cp k) c w = Inl e \<Longrightarrow>
           loc_leaf cb (resolve (cwd w) cp @ [k]) k (files w) = files w"
  using assms(2,3)
  by (auto simp: os_open_write_def loc_leaf_def resolve_join [OF assms(1)] plain_join [OF assms(1)]
      split: if_splits)

lemma loc_items_dict:
  "is_dict v \<Longrightarrow> file_on_way fs (loc @ [key]) \<Longrightarrow>
   loc_items cb loc ((key, v) # rest) fs = loc_items cb loc rest fs"
  "is_dict v \<Longrightarrow> \<not> file_on_way fs (loc @ [key]) \<Longrightarrow>
   loc_items cb loc ((key, v) # rest) fs =
     loc_items cb loc rest (loc_items cb (loc @ [key]) (dict_items v) (make_dirs fs (loc @ [key])))"
  "\<not> is_dict v \<Longrightarrow>
   loc_items cb loc ((key, v) # rest) fs = loc_items cb loc rest (loc_leaf cb (loc @ [key]) key fs)"
  by simp_all

text \<open>On entries with plain names the walk does to the files what \<open>loc_items\<close> tells.\<close>

lemma walk_loc:
  "is_dict tree \<longrightarrow> plain_items (dict_items tree) \<longrightarrow>
     (\<forall>w'. create_folders_and_files cp tree cb w = Inr w' \<longrightarrow>
        files w' = loc_items cb (resolve (cwd w) cp) (dict_items tree) (files w) \<and> cwd w' = cwd w)"
  "plain_items items \<longrightarrow>
     (\<forall>w'. walk_items cp' items cb' w2 = Inr w' \<longrightarrow>
        files w' = loc_items cb' (resolve (cwd w2) cp') items (files w2) \<and> cwd w' = cwd w2)"
proof (induction cp tree cb w and cp' items cb' w2 rule: create_folders_and_files_walk_items.induct)
  case (4 cp key v rest cb w)
  show ?case
  proof (intro impI allI)
    fix w'
    assume pl: "plain_items ((key, v) # rest)"
      and r: "walk_items cp ((key, v) # rest) cb w = Inr w'"
    from pl have pk: "plain_name key" and ps: "plain_items (dict_items v)" and pr: "plain_items rest"
      by simp_all
    let ?p = "os_path_join cp key" and ?L = "resolve (cwd w) cp"
    have rj: "resolve (cwd w) ?p = ?L @ [key]"
      by (rule resolve_join(1) [OF pk])
    show "files w' = loc_items cb ?L ((key, v) # rest) (files w) \<and> cwd w' = cwd w"
    proof (cases "is_dict v")
      case True
      show ?thesis
      proof (cases "os_makedirs ?p w")
        case (Inl e)
        from os_makedirs_join(2) [OF pk Inl]
        have b: "file_on_way (files w) (?L @ [key])" .
        from r True Inl have "walk_items cp rest cb (console_print (folder_error_panel ?p e) w) = Inr w'"
          by simp
        with "4.IH"(1) [OF True Inl] pr
        have "files w' = loc_items cb ?L rest (files w) \<and> cwd w' = cwd w"
          by (simp add: console_print_def)
        with True b show ?thesis
          by simp
      next
        case (Inr w1)
        from os_makedirs_join(1) [OF pk Inr]
        have nb: "\<not> file_on_way (files w) (?L @ [key])"
          and f1: "files w1 = make_dirs (files w) (?L @ [key])" and c1: "cwd w1 = cwd w"
          by simp_all
        let ?w1 = "console_print (folder_created_panel ?p) w1"
        from r True Inr obtain w2 where
          c: "create_folders_and_files ?p v cb ?w1 = Inr w2"
          and r2: "walk_items cp rest cb w2 = Inr w'"
          by (cases "create_folders_and_files ?p v cb ?w1") simp_all
        from "4.IH"(2) [OF True Inr] True ps c
        have "files w2 = loc_items cb (resolve (cwd ?w1) ?p) (dict_items v) (files ?w1) \<and> cwd w2 = cwd ?w1"
          by blast
        then have f2: "files w2 = loc_items cb (?L @ [key]) (dict_items v) (make_dirs (files w) (?L @ [key]))"
          and c2: "cwd w2 = cwd w"
          by (simp_all add: console_print_def f1 c1 rj)
        from "4.IH"(3) [OF True Inr c] pr r2
        have "files w' = loc_items cb (resolve (cwd w2) cp) rest (files w2) \<and> cwd w' = cwd w2"
          by blast
        with True nb f2 c2 show ?thesis
          by simp
      qed
    next
      case False
      show ?thesis
      proof (cases "lookup_code key cb")
        case None
        with r False have "walk_items cp rest cb (console_print (missing_code_panel key) w) = Inr w'"
          by simp
        with "4.IH"(4) [OF False None] pr
        have "files w' = loc_items cb ?L rest (files w) \<and> cwd w' = cwd w"
          by (simp add: console_print_def)
        moreover have "loc_leaf cb (?L @ [key]) key (files w) = files w"
          using None by (simp add: loc_leaf_def)
        ultimately show ?thesis using False
          by simp
      next
        case (Some c)
        show ?thesis
        proof (cases "c = []")
          case True
          with r False Some
          have "walk_items cp rest cb (console_print (missing_code_panel key) w) = Inr w'"
            by simp
          with "4.IH"(7) [OF False Some] True pr
          have "files w' = loc_items cb ?L rest (files w) \<and> cwd w' = cwd w"
            by (simp add: console_print_def)
          moreover have "loc_leaf cb (?L @ [key]) key (files w) = files w"
            using Some True by (simp add: loc_leaf_def)
          ultimately show ?thesis using False
            by simp
        next
          case ne: False
          show ?thesis
          proof (cases "os_open_write ?p c w")
            case (Inl e)
            with r False Some ne
            have "walk_items cp rest cb (console_print (file_error_panel ?p e) w) = Inr w'"
              by simp
            with "4.IH"(5) [OF False Some ne Inl] pr
            have "files w' = loc_items cb ?L rest (files w) \<and> cwd w' = cwd w"
              by (simp add: console_print_def)
            moreover have "loc_leaf cb (?L @ [key]) key (files w) = files w"
              by (rule os_open_write_join(2) [OF pk Some ne Inl])
            ultimately show ?thesis using False
              by simp
          next
            case (Inr w1)
            from os_open_write_join(1) [OF pk Some ne Inr]
            have f1: "files w1 = loc_leaf cb (?L @ [key]) key (files w)" and c1: "cwd w1 = cwd w"
              by simp_all
            from r False Some ne Inr
            have "walk_items cp rest cb (console_print (file_created_panel ?p) w1) = Inr w'"
              by simp
            with "4.IH"(6) [OF False Some ne Inr] pr
            have "files w' = loc_items cb ?L rest (loc_leaf cb (?L @ [key]) key (files w)) \<and> cwd w' = cwd w"
              by (simp add: console_print_def f1 c1)
            then show ?thesis using False
              by simp
          qed
        qed
      qed
    qed
  qed
qed simp_all

lemma resolve_empty: "resolve wd [] = wd"
  by (simp add: resolve_def components_def)

lemma materialize_files:
  assumes pl: "plain_items items"
  shows "\<exists>w1. create_folder_structure project_name (JObject items) cb w = Inr w1 \<and> cwd w1 = cwd w \<and>
     files w1 = loc_items cb (resolve (cwd w) project_name) items
       (if project_name \<noteq> [] \<and> \<not> file_on_way (files w) (resolve (cwd w) project_name)
        then make_dirs (files w) (resolve (cwd w) project_name) else files w)"
proof -
  let ?w0 = "case os_makedirs project_name w of
       Inr w1 \<Rightarrow> console_print (project_created_panel project_name) w1
     | Inl e \<Rightarrow> console_print (project_error_panel project_name e) w"
  have c: "create_folder_structure project_name (JObject items) cb w = walk_items project_name items cb ?w0"
    by (simp add: create_folder_structure_def)
  obtain w1 where w1: "walk_items project_name items cb ?w0 = Inr w1"
    using walk_total(2) by blast
  from walk_loc(2) [of items project_name cb ?w0] pl w1
  have f: "files w1 = loc_items cb (resolve (cwd ?w0) project_name) items (files ?w0)"
    and d: "cwd w1 = cwd ?w0"
    by blast+
  have "cwd ?w0 = cwd w \<and>
    files ?w0 = (if project_name \<noteq> [] \<and> \<not> file_on_way (files w) (resolve (cwd w) project_name)
        then make_dirs (files w) (resolve (cwd w) project_name) else files w)"
    by (simp add: os_makedirs_def console_print_def)
  with c w1 f d show ?thesis by simp
qed

text \<open>
  C7, as the code has it. For a tree whose keys are plain names, in a world whose
  working directory is there, the materializer returns, it returns when run once more
  on the world it left, and the second run leaves the files as the first one did.
\<close>

theorem C7_idempotent:
  assumes pl: "plain_items items" and wd: "dir_chain (files w) (cwd w)"
  shows "\<exists>w1 w2. create_folder_structure project_name (JObject items) code_blocks w = Inr w1 \<and>
           materialize_twice project_name (JObject items) code_blocks w = Inr w2 \<and>
           files w2 = files w1"
proof -
  let ?L = "resolve (cwd w) project_name"
  let ?open = "project_name \<noteq> [] \<and> \<not> file_on_way (files w) ?L"
  let ?f0 = "if ?open then make_dirs (files w) ?L else files w"
  obtain w1 where r1: "create_folder_structure project_name (JObject items) code_blocks w = Inr w1"
    and c1: "cwd w1 = cwd w" and f1: "files w1 = loc_items code_blocks ?L items ?f0"
    using materialize_files [OF pl] by blast
  obtain w2 where r2: "create_folder_structure project_name (JObject items) code_blocks w1 = Inr w2"
    and f2: "files w2 = loc_items code_blocks (resolve (cwd w1) project_name) items
       (if project_name \<noteq> [] \<and> \<not> file_on_way (files w1) (resolve (cwd w1) project_name)
        then make_dirs (files w1) (resolve (cwd w1) project_name) else files w1)"
    using materialize_files [OF pl] by blast
  have "files w2 = files w1"
  proof (cases "dir_chain ?f0 ?L")
    case True
    then have d1: "dir_chain (files w1) ?L"
      unfolding f1 by (rule loc_items_dir_chain)
    then have "make_dirs (files w1) ?L = files w1"
      by (rule make_dirs_there)
    then have "files w2 = loc_items code_blocks ?L items (files w1)"
      by (simp add: f2 c1)
    also have "\<dots> = files w1"
      unfolding f1 using loc_items_idem [of ?f0 ?L items code_blocks] True pl by blast
    finally show ?thesis .
  next
    case False
    have b: "file_on_way (files w) ?L \<and> ?f0 = files w"
    proof (cases "project_name = []")
      case True
      with wd False show ?thesis by (simp add: resolve_empty)
    next
      case ne: False
      show ?thesis
      proof (cases "file_on_way (files w) ?L")
        case True
        then show ?thesis by simp
      next
        case nf: False
        with ne False show ?thesis by (simp add: dir_chain_make_dirs)
      qed
    qed
    then have e1: "files w1 = files w"
      by (simp add: f1 loc_items_blocked)
    with b c1 have "files w2 = loc_items code_blocks ?L items (files w)"
      by (simp add: f2)
    with b e1 show ?thesis
      by (simp add: loc_items_blocked)
  qed
  with r1 r2 show ?thesis
    by (simp add: materialize_twice_def)
qed

theorem C7_idempotent_witness:
  "\<exists>w1 w2. create_folder_structure ''app'' (JObject sample_tree_items) [(''main.py'', ''x = 1'')] empty_world = Inr w1 \<and>
     materialize_twice ''app'' (JObject sample_tree_items) [(''main.py'', ''x = 1'')] empty_world = Inr w2 \<and>
     files w2 = files w1"
proof -
  have "plain_items sample_tree_items"
    by (simp add: sample_tree_items_def plain_name_def)
  moreover have "dir_chain (files empty_world) (cwd empty_world)"
    by (simp add: dir_chain_def empty_world_def)
  ultimately show ?thesis by (rule C7_idempotent)
qed

text \<open>
  C7 as stated fails: the key \<open>sub/f.py\<close> comes before the key \<open>sub\<close>. The first run
  cannot write \<open>app/sub/f.py\<close>, the directory \<open>app/sub\<close> being made only afterwards; the
  second run finds the directory and writes the file.
\<close>

theorem C7_path_key_second_run:
  "map_sum id (\<lambda>w. files w [''app'', ''sub'', ''f.py''])
     (create_folder_structure ''app'' nested_key_tree [(''sub/f.py'', ''x = 1'')] empty_world) = Inr None \<and>
   map_sum id (\<lambda>w. files w [''app'', ''sub'', ''f.py''])
     (materialize_twice ''app'' nested_key_tree [(''sub/f.py'', ''x = 1'')] empty_world) =
     Inr (Some (File ''x = 1''))"
  by (simp add: materialize_twice_def create_folder_structure_def nested_key_tree_def os_makedirs_def
      os_open_write_def os_path_join_def resolve_def components_def names_directory_def file_on_way_def
      dir_chain_def make_dirs_def console_print_def empty_world_def)

end
